theory Spec2Isabelle
  imports Main "HOL-Library.Word"
begin

section \<open>The ESP32 GPS tracker sketch (gps-tracking-alert.ino)\<close>

text \<open>
  The sketch is a single-threaded Arduino program: \<open>setup()\<close> runs once, then \<open>loop()\<close>
  runs forever. All of its state is global variables, which become one record that every
  function takes and returns. Everything the sketch reads from outside (\<open>millis()\<close>,
  \<open>WiFi.status()\<close>, \<open>time(nullptr)\<close>, the bytes of the GPS serial port and what TinyGPS++
  decodes from them, the result of the SMTP calls and of the reverse geocoding request) is
  an explicit input of the function that reads it, one input per read, in the order of the
  reads. \<open>unsigned long\<close> is 32 bits wide on the ESP32, so every \<open>millis()\<close> value is a
  \<open>32 word\<close> and the subtractions of the sketch wrap around as they do in C. A \<open>double\<close>
  is only stored and copied by the sketch, never computed with: the coordinates are values of
  a type parameter \<open>'d\<close>.
\<close>

subsection \<open>Constants and the LED state\<close>

type_synonym ulong = "32 word"

datatype LEDState = LED_OFF | LED_ON | LED_BLINK_SLOW | LED_BLINK_FAST

definition LED_WIFI_PIN :: int where "LED_WIFI_PIN = 2"
definition LED_GPS_PIN :: int where "LED_GPS_PIN = 4"
definition LED_SYSTEM_PIN :: int where "LED_SYSTEM_PIN = 5"

definition LED_BLINK_INTERVAL :: ulong where "LED_BLINK_INTERVAL = 500"
definition LED_FAST_BLINK_INTERVAL :: ulong where "LED_FAST_BLINK_INTERVAL = 200"
definition LOCATION_SEND_INTERVAL :: ulong where "LOCATION_SEND_INTERVAL = 300000"

definition updateInterval :: "16 word" where "updateInterval = 30"
definition enableOfflineStorage :: bool where "enableOfflineStorage = True"
definition offlineBufferLimit :: "8 word" where "offlineBufferLimit = 50"
definition enableAutoReconnect :: bool where "enableAutoReconnect = True"

text \<open>The clock value below which \<open>time(nullptr)\<close> counts as not synchronised:
  \<open>8 * 3600 * 2\<close> seconds.\<close>

definition TIME_SANITY :: int where "TIME_SANITY = 8 * 3600 * 2"

subsection \<open>What the sketch sends and what it remembers\<close>

text \<open>
  Every call of \<open>sendLocationEmail\<close> is recorded, newest first, with the path that called
  it (the sketch prints "First GPS lock acquired!" before the one call and "Sending periodic
  location update..." before the other), how far the call got, and the coordinates and place
  name it had. \<open>CannotSend\<close> is the early return of the guard ("Cannot send email - WiFi or
  GPS not available"); the other three outcomes passed the guard and went on to the
  "Send email" part: the SMTP connection failed, the send failed, or the mail went out.
\<close>

datatype caller = FirstLockPath | PeriodicPath

datatype mail_outcome = CannotSend | SmtpConnectFailed | SendFailed | Sent

record 'd mail_event =
  ev_caller :: caller
  ev_outcome :: mail_outcome
  ev_lat :: 'd
  ev_lng :: 'd
  ev_place :: string

text \<open>The settings \<open>initializeGeoLinker\<close> hands to the GeoLinker object.\<close>

record geo_config =
  gc_updateInterval :: "16 word"
  gc_offlineStorage :: bool
  gc_autoReconnect :: bool
  gc_offlineBufferLimit :: "8 word"

record 'd globals =
  wifiLEDState :: LEDState
  gpsLEDState :: LEDState
  systemLEDState :: LEDState
  lastLEDUpdate :: ulong
  ledBlinkState :: bool
  currentLatitude :: 'd
  currentLongitude :: 'd
  gpsDataValid :: bool
  firstGPSLock :: bool
  currentLocationName :: string
  lastLocationSend :: ulong
  lastGPSData :: ulong
  geo :: "geo_config option"
  pins :: "int \<Rightarrow> bool"
  mailLog :: "'d mail_event list"

text \<open>The initialisers of the globals; \<open>lastGPSData\<close> is the static local of
  \<open>updateGPSData\<close>. No pin has been written and no mail has been asked for.\<close>

definition initial_globals :: "('d::zero) globals" where
  "initial_globals =
     \<lparr> wifiLEDState = LED_OFF, gpsLEDState = LED_OFF, systemLEDState = LED_OFF,
       lastLEDUpdate = 0, ledBlinkState = False,
       currentLatitude = 0, currentLongitude = 0,
       gpsDataValid = False, firstGPSLock = True,
       currentLocationName = ''Unknown Location'',
       lastLocationSend = 0, lastGPSData = 0,
       geo = None, pins = (\<lambda>_. False), mailLog = [] \<rparr>"

subsection \<open>LED control\<close>

definition digitalWrite :: "int \<Rightarrow> bool \<Rightarrow> 'd globals \<Rightarrow> 'd globals" where
  "digitalWrite pin level s = s\<lparr>pins := (pins s)(pin := level)\<rparr>"

text \<open>\<open>initializeLEDs\<close>: each LED is switched on and off again, in turn.\<close>

definition initializeLEDs :: "'d globals \<Rightarrow> 'd globals" where
  "initializeLEDs s =
     digitalWrite LED_SYSTEM_PIN False (digitalWrite LED_SYSTEM_PIN True
       (digitalWrite LED_GPS_PIN False (digitalWrite LED_GPS_PIN True
         (digitalWrite LED_WIFI_PIN False (digitalWrite LED_WIFI_PIN True s)))))"

text \<open>\<open>controlLED\<close> reads \<open>millis()\<close> in its fast-blink case only; \<open>ms\<close> is that read.\<close>

fun controlLED :: "ulong \<Rightarrow> int \<Rightarrow> LEDState \<Rightarrow> 'd globals \<Rightarrow> 'd globals" where
  "controlLED ms pin LED_OFF s = digitalWrite pin False s"
| "controlLED ms pin LED_ON s = digitalWrite pin True s"
| "controlLED ms pin LED_BLINK_SLOW s = digitalWrite pin (ledBlinkState s) s"
| "controlLED ms pin LED_BLINK_FAST s =
     digitalWrite pin (ms mod (LED_FAST_BLINK_INTERVAL * 2) < LED_FAST_BLINK_INTERVAL) s"

text \<open>The four \<open>millis()\<close> reads of one \<open>updateLEDs\<close> call: its own, and the one each
  \<open>controlLED\<close> call makes if its LED blinks fast.\<close>

record led_reads =
  lr_now :: ulong
  lr_wifi :: ulong
  lr_gps :: ulong
  lr_system :: ulong

definition updateLEDs :: "led_reads \<Rightarrow> 'd globals \<Rightarrow> 'd globals" where
  "updateLEDs r s =
     (let s1 = (if lr_now r - lastLEDUpdate s \<ge> LED_BLINK_INTERVAL
                then s\<lparr>ledBlinkState := \<not> ledBlinkState s, lastLEDUpdate := lr_now r\<rparr>
                else s);
          s2 = controlLED (lr_wifi r) LED_WIFI_PIN (wifiLEDState s1) s1;
          s3 = controlLED (lr_gps r) LED_GPS_PIN (gpsLEDState s2) s2
      in controlLED (lr_system r) LED_SYSTEM_PIN (systemLEDState s3) s3)"

text \<open>The three setters store the state and print it; they write no pin.\<close>

definition setWiFiLED :: "LEDState \<Rightarrow> 'd globals \<Rightarrow> 'd globals" where
  "setWiFiLED st s = s\<lparr>wifiLEDState := st\<rparr>"

definition setGPSLED :: "LEDState \<Rightarrow> 'd globals \<Rightarrow> 'd globals" where
  "setGPSLED st s = s\<lparr>gpsLEDState := st\<rparr>"

definition setSystemLED :: "LEDState \<Rightarrow> 'd globals \<Rightarrow> 'd globals" where
  "setSystemLED st s = s\<lparr>systemLEDState := st\<rparr>"

subsection \<open>WiFi connection and time synchronisation\<close>

text \<open>
  One evaluation of the loop condition of \<open>connectToWiFi\<close>,
  \<open>WiFi.status() != WL_CONNECTED && millis() - startTime < 20000\<close>, and the reads of the
  \<open>updateLEDs\<close> call of the body that follows when the condition holds. The polls are a
  list: when the loop is still running after the last one, the model has no answer
  (\<open>None\<close>).
\<close>

record wifi_poll =
  wp_connected :: bool
  wp_millis :: ulong
  wp_leds :: led_reads

fun connect_wait :: "ulong \<Rightarrow> wifi_poll list \<Rightarrow> 'd globals \<Rightarrow> 'd globals option" where
  "connect_wait startTime [] s = None"
| "connect_wait startTime (p # ps) s =
     (if \<not> wp_connected p \<and> wp_millis p - startTime < 20000
      then connect_wait startTime ps (updateLEDs (wp_leds p) s)
      else Some s)"

record connect_env =
  ce_startTime :: ulong
  ce_polls :: "wifi_poll list"
  ce_connected :: bool

definition connectToWiFi :: "connect_env \<Rightarrow> 'd globals \<Rightarrow> 'd globals option" where
  "connectToWiFi env s =
     (case connect_wait (ce_startTime env) (ce_polls env) (setWiFiLED LED_BLINK_SLOW s) of
        None \<Rightarrow> None
      | Some s1 \<Rightarrow>
          Some (if ce_connected env then setWiFiLED LED_ON s1
                else setWiFiLED LED_BLINK_FAST s1))"

text \<open>
  \<open>syncTime\<close>: \<open>now\<close> is read once before the loop; each poll is one evaluation of
  \<open>now < 8 * 3600 * 2 && millis() - start < 10000\<close> followed, when it holds, by the body:
  \<open>updateLEDs\<close> and a new read of the clock.
\<close>

record sync_poll =
  sp_millis :: ulong
  sp_leds :: led_reads
  sp_time :: int

fun sync_wait :: "ulong \<Rightarrow> int \<Rightarrow> sync_poll list \<Rightarrow> 'd globals \<Rightarrow> (int \<times> 'd globals) option" where
  "sync_wait start now [] s = (if now < TIME_SANITY then None else Some (now, s))"
| "sync_wait start now (p # ps) s =
     (if now < TIME_SANITY \<and> sp_millis p - start < 10000
      then sync_wait start (sp_time p) ps (updateLEDs (sp_leds p) s)
      else Some (now, s))"

record sync_env =
  se_now :: int
  se_start :: ulong
  se_polls :: "sync_poll list"

definition syncTime :: "sync_env \<Rightarrow> 'd globals \<Rightarrow> (bool \<times> 'd globals) option" where
  "syncTime env s =
     (case sync_wait (se_start env) (se_now env) (se_polls env) s of
        None \<Rightarrow> None
      | Some (now, s1) \<Rightarrow> Some (if now < TIME_SANITY then False else True, s1))"

text \<open>\<open>getCurrentTimestamp\<close>; \<open>fmt\<close> stands for \<open>localtime_r\<close> and \<open>strftime\<close>.\<close>

definition getCurrentTimestamp :: "(int \<Rightarrow> string) \<Rightarrow> int \<Rightarrow> string" where
  "getCurrentTimestamp fmt now =
     (if now < TIME_SANITY then ''Time not synchronized'' else fmt now)"

subsection \<open>GeoLinker\<close>

record geo_env =
  gv_wifi :: bool
  gv_connect :: bool

definition initializeGeoLinker :: "geo_env \<Rightarrow> 'd globals \<Rightarrow> 'd globals" where
  "initializeGeoLinker env s =
     (let s1 = s\<lparr>geo := Some \<lparr> gc_updateInterval = updateInterval,
                               gc_offlineStorage = enableOfflineStorage,
                               gc_autoReconnect = enableAutoReconnect,
                               gc_offlineBufferLimit = offlineBufferLimit \<rparr>\<rparr>
      in if gv_wifi env
         then (if gv_connect env then s1 else setSystemLED LED_BLINK_SLOW s1)
         else s1)"

text \<open>\<open>handleGeoLinkerStatus\<close> prints one line per status code and changes no global.\<close>

definition handleGeoLinkerStatus :: "8 word \<Rightarrow> 'd globals \<Rightarrow> 'd globals" where
  "handleGeoLinkerStatus status s = s"

subsection \<open>The location mail\<close>

text \<open>
  What one call of \<open>sendLocationEmail\<close> reads: \<open>WiFi.status()\<close> at its guard and again in
  \<open>getAddressFromCoordinates\<close>, the place name the reverse geocoding request yields
  (\<open>None\<close> when the connection or the parse of the answer fails), and the results of
  \<open>smtp.connect\<close> and \<open>MailClient.sendMail\<close>. The HTML body is left out.
\<close>

record mail_env =
  me_wifi :: bool
  me_lookup_wifi :: bool
  me_lookup :: "string option"
  me_smtp_connect :: bool
  me_send_ok :: bool

definition getAddressFromCoordinates :: "mail_env \<Rightarrow> string" where
  "getAddressFromCoordinates env =
     (if \<not> me_lookup_wifi env then ''Network unavailable''
      else case me_lookup env of Some a \<Rightarrow> a | None \<Rightarrow> ''Address lookup failed'')"

definition record_mail :: "caller \<Rightarrow> mail_outcome \<Rightarrow> 'd globals \<Rightarrow> 'd globals" where
  "record_mail c outcome s =
     s\<lparr>mailLog := \<lparr> ev_caller = c, ev_outcome = outcome,
                     ev_lat = currentLatitude s, ev_lng = currentLongitude s,
                     ev_place = currentLocationName s \<rparr> # mailLog s\<rparr>"

definition sendLocationEmail :: "caller \<Rightarrow> mail_env \<Rightarrow> 'd globals \<Rightarrow> 'd globals" where
  "sendLocationEmail c env s =
     (if \<not> me_wifi env then record_mail c CannotSend s
      else if \<not> gpsDataValid s then record_mail c CannotSend s
      else let s1 = s\<lparr>currentLocationName := getAddressFromCoordinates env\<rparr>
           in if \<not> me_smtp_connect env then record_mail c SmtpConnectFailed s1
              else if \<not> me_send_ok env then record_mail c SendFailed s1
              else record_mail c Sent s1)"

text \<open>A call reached the send step when it passed the guard.\<close>

fun reached_send :: "'d mail_event \<Rightarrow> bool" where
  "reached_send e = (case ev_outcome e of CannotSend \<Rightarrow> False | _ \<Rightarrow> True)"

definition sends_reached :: "'d globals \<Rightarrow> nat" where
  "sends_reached s = length (filter reached_send (mailLog s))"

fun from_first_lock :: "'d mail_event \<Rightarrow> bool" where
  "from_first_lock e = (case ev_caller e of FirstLockPath \<Rightarrow> True | PeriodicPath \<Rightarrow> False)"

definition first_lock_calls :: "'d globals \<Rightarrow> nat" where
  "first_lock_calls s = length (filter from_first_lock (mailLog s))"

subsection \<open>GPS data\<close>

text \<open>
  What one byte read from the GPS serial port leads to: \<open>gps.encode(c)\<close> is false
  (\<open>Incomplete\<close>), or it is true and \<open>gps.location.isValid()\<close> is false (\<open>NoLocation\<close>), or
  both are true and \<open>gps.location\<close> holds a latitude and a longitude (\<open>Location\<close>). The
  grammar TinyGPS++ decodes is not part of the sketch.
\<close>

datatype 'd gps_byte = Incomplete | NoLocation | Location 'd 'd

fun on_byte :: "mail_env \<Rightarrow> 'd gps_byte \<Rightarrow> 'd globals \<Rightarrow> 'd globals" where
  "on_byte env Incomplete s = s"
| "on_byte env NoLocation s = setGPSLED LED_BLINK_SLOW s"
| "on_byte env (Location lat lng) s =
     (let s1 = setGPSLED LED_ON
                 (s\<lparr>currentLatitude := lat, currentLongitude := lng, gpsDataValid := True\<rparr>)
      in if firstGPSLock s1
         then sendLocationEmail FirstLockPath env (s1\<lparr>firstGPSLock := False\<rparr>)
         else s1)"

fun ingest :: "mail_env \<Rightarrow> 'd gps_byte list \<Rightarrow> 'd globals \<Rightarrow> 'd globals" where
  "ingest env [] s = s"
| "ingest env (b # bs) s = ingest env bs (on_byte env b s)"

text \<open>
  \<open>updateGPSData\<close>: \<open>bytes\<close> are the bytes the \<open>while (gpsSerial.available() > 0)\<close> loop
  reads in this call (\<open>gpsDataReceived\<close> is true when there is at least one), \<open>env\<close> is
  what the first-lock mail reads if it is sent, \<open>ms\<close> is the one \<open>millis()\<close> read after
  the loop.
\<close>

definition updateGPSData :: "mail_env \<Rightarrow> 'd gps_byte list \<Rightarrow> ulong \<Rightarrow> 'd globals \<Rightarrow> 'd globals" where
  "updateGPSData env bytes ms s =
     (let s1 = ingest env bytes s
      in if bytes \<noteq> [] then s1\<lparr>lastGPSData := ms\<rparr>
         else if ms - lastGPSData s1 > 5000 then setGPSLED LED_OFF s1
         else s1)"

subsection \<open>The main program\<close>

record setup_env =
  su_connect :: connect_env
  su_sync :: sync_env
  su_geo :: geo_env

text \<open>\<open>setup()\<close>.\<close>

definition setup_sketch :: "setup_env \<Rightarrow> 'd globals \<Rightarrow> 'd globals option" where
  "setup_sketch env s =
     (let s1 = setSystemLED LED_BLINK_SLOW (initializeLEDs s);
          s2 = setGPSLED LED_BLINK_SLOW s1;
          s3 = setWiFiLED LED_BLINK_SLOW s2
      in case connectToWiFi (su_connect env) s3 of
           None \<Rightarrow> None
         | Some s4 \<Rightarrow>
             (case syncTime (su_sync env) s4 of
                None \<Rightarrow> None
              | Some (synced, s5) \<Rightarrow>
                  Some (initializeGeoLinker (su_geo env)
                         (if \<not> synced then setSystemLED LED_BLINK_SLOW s5
                          else setSystemLED LED_OFF s5))))"

text \<open>
  What one pass of \<open>loop()\<close> reads, in order: \<open>WiFi.status()\<close>; the reads of
  \<open>connectToWiFi\<close> if it is called; those of \<open>updateGPSData\<close>; the status \<open>geo.loop()\<close>
  returns; \<open>millis()\<close> in the condition of the periodic update; the reads of
  \<open>sendLocationEmail\<close> and the \<open>millis()\<close> stored in \<open>lastLocationSend\<close> if the update is
  sent. The closing \<open>delay(100)\<close> only lets time pass, which the next pass reads.
\<close>

record 'd tick =
  tk_wifi :: bool
  tk_connect :: connect_env
  tk_lock_mail :: mail_env
  tk_bytes :: "'d gps_byte list"
  tk_gps_millis :: ulong
  tk_geo_status :: "8 word"
  tk_millis :: ulong
  tk_mail :: mail_env
  tk_sent_millis :: ulong

definition loop :: "'d tick \<Rightarrow> 'd globals \<Rightarrow> 'd globals option" where
  "loop i s =
     (case (if \<not> tk_wifi i then connectToWiFi (tk_connect i) s else Some s) of
        None \<Rightarrow> None
      | Some s1 \<Rightarrow>
          (let s2 = updateGPSData (tk_lock_mail i) (tk_bytes i) (tk_gps_millis i) s1;
               s3 = (if tk_geo_status i > 0 then handleGeoLinkerStatus (tk_geo_status i) s2
                     else s2)
           in Some (if tk_millis i - lastLocationSend s3 > LOCATION_SEND_INTERVAL \<and> gpsDataValid s3
                    then (sendLocationEmail PeriodicPath (tk_mail i) s3)
                           \<lparr>lastLocationSend := tk_sent_millis i\<rparr>
                    else s3)))"

text \<open>Any number of passes of \<open>loop()\<close>, and the whole program from power-on.\<close>

fun run :: "'d tick list \<Rightarrow> 'd globals \<Rightarrow> 'd globals option" where
  "run [] s = Some s"
| "run (i # rest) s = (case loop i s of None \<Rightarrow> None | Some s1 \<Rightarrow> run rest s1)"

definition execution :: "setup_env \<Rightarrow> ('d::zero) tick list \<Rightarrow> 'd globals option" where
  "execution env ticks =
     (case setup_sketch env initial_globals of None \<Rightarrow> None | Some s \<Rightarrow> run ticks s)"

subsection \<open>Auxiliary notions for the properties\<close>

text \<open>Two states that differ at most in the WiFi LED state, the blink clock and the pins:
  what \<open>connectToWiFi\<close> and \<open>updateLEDs\<close> may change.\<close>

definition same_but_leds :: "'d globals \<Rightarrow> 'd globals \<Rightarrow> bool" where
  "same_but_leds s t =
     (gpsLEDState t = gpsLEDState s \<and> systemLEDState t = systemLEDState s \<and>
      currentLatitude t = currentLatitude s \<and> currentLongitude t = currentLongitude s \<and>
      gpsDataValid t = gpsDataValid s \<and> firstGPSLock t = firstGPSLock s \<and>
      currentLocationName t = currentLocationName s \<and>
      lastLocationSend t = lastLocationSend s \<and> lastGPSData t = lastGPSData s \<and>
      geo t = geo s \<and> mailLog t = mailLog s)"

text \<open>What holds of the lock flags and the mail record from power-on onwards.\<close>

definition lock_inv :: "'d globals \<Rightarrow> bool" where
  "lock_inv s =
     (if firstGPSLock s then \<not> gpsDataValid s \<and> first_lock_calls s = 0
      else gpsDataValid s \<and> first_lock_calls s = 1)"

text \<open>The last statement of \<open>loop()\<close>, on the state the GPS update leaves.\<close>

definition periodic_update :: "'d tick \<Rightarrow> 'd globals \<Rightarrow> 'd globals" where
  "periodic_update i s =
     (if tk_millis i - lastLocationSend s > LOCATION_SEND_INTERVAL \<and> gpsDataValid s
      then (sendLocationEmail PeriodicPath (tk_mail i) s)\<lparr>lastLocationSend := tk_sent_millis i\<rparr>
      else s)"

text \<open>
  Modelled from the spec: the offline buffer of the telemetry sink is kept inside the
  GeoLinker library, which the sketch only configures (\<open>setOfflineBufferLimit\<close>) and calls
  (\<open>geo.loop()\<close>); its code is not part of the sketch. The spec describes it as a bounded
  FIFO of capacity N whose insertion, when full, evicts the oldest unsent entry to admit the
  newest. The list holds the oldest entry first.
\<close>

definition buffer_push :: "nat \<Rightarrow> 'a \<Rightarrow> 'a list \<Rightarrow> 'a list" where
  "buffer_push cap x buf = (if length buf < cap then buf @ [x] else tl buf @ [x])"

text \<open>Modelled from the spec: the pushes attempted, one after the other, while the link is
  down (nothing is sent, so nothing leaves the buffer but by eviction).\<close>

fun buffer_pushes :: "nat \<Rightarrow> 'a list \<Rightarrow> 'a list \<Rightarrow> 'a list" where
  "buffer_pushes cap [] buf = buf"
| "buffer_pushes cap (x # xs) buf = buffer_pushes cap xs (buffer_push cap x buf)"

subsection \<open>Sample inputs\<close>

text \<open>
  A power-on where the network is joined at the first poll and the clock is already set, a
  mail that goes through, and a pass of \<open>loop()\<close> at time \<open>t\<close> with the link up, the given
  GPS bytes, and a periodic mail that takes 2.5 seconds if it is sent. Coordinates in the
  samples are integers (microdegrees).
\<close>

definition no_led_reads :: led_reads where
  "no_led_reads = \<lparr> lr_now = 0, lr_wifi = 0, lr_gps = 0, lr_system = 0 \<rparr>"

definition link_up :: connect_env where
  "link_up = \<lparr> ce_startTime = 1900,
               ce_polls = [\<lparr> wp_connected = True, wp_millis = 1900, wp_leds = no_led_reads \<rparr>],
               ce_connected = True \<rparr>"

definition clock_synced :: sync_env where
  "clock_synced = \<lparr> se_now = 1753864225, se_start = 2400, se_polls = [] \<rparr>"

definition power_on :: setup_env where
  "power_on = \<lparr> su_connect = link_up, su_sync = clock_synced,
                su_geo = \<lparr> gv_wifi = True, gv_connect = True \<rparr> \<rparr>"

definition mail_ok :: mail_env where
  "mail_ok = \<lparr> me_wifi = True, me_lookup_wifi = True, me_lookup = Some ''Park Street'',
               me_smtp_connect = True, me_send_ok = True \<rparr>"

definition tick_at :: "ulong \<Rightarrow> 'd gps_byte list \<Rightarrow> 'd tick" where
  "tick_at t bytes =
     \<lparr> tk_wifi = True, tk_connect = link_up, tk_lock_mail = mail_ok, tk_bytes = bytes,
       tk_gps_millis = t, tk_geo_status = 0, tk_millis = t, tk_mail = mail_ok,
       tk_sent_millis = t + 2500 \<rparr>"

text \<open>
  A power-on where the network is joined at once but the clock never leaves its power-on
  value: \<open>syncTime\<close> polls every 500 ms and its loop condition is checked for the last time
  10 seconds after the start.
\<close>

definition clock_unset :: sync_env where
  "clock_unset =
     \<lparr> se_now = 2, se_start = 2400,
       se_polls = map (\<lambda>k. \<lparr> sp_millis = 2400 + 500 * of_nat k,
                               sp_leds = \<lparr> lr_now = 2900 + 500 * of_nat k,
                                           lr_wifi = 2900 + 500 * of_nat k,
                                           lr_gps = 2900 + 500 * of_nat k,
                                           lr_system = 2900 + 500 * of_nat k \<rparr>,
                               sp_time = 2 + int k div 2 \<rparr>) [0..<21] \<rparr>"

definition power_on_unsynced :: setup_env where
  "power_on_unsynced = power_on\<lparr>su_sync := clock_unset\<rparr>"

text \<open>The globals after a first call of \<open>updateGPSData\<close>, three seconds after power-on, in
  which a valid location is decoded.\<close>

definition locked_at_3s :: "int globals" where
  "locked_at_3s = updateGPSData mail_ok [Location 22572645 88363892] 3000 initial_globals"

text \<open>The program after a pass that decodes a sentence without a location and a pass that
  decodes the first valid location, 3.1 seconds after power-on.\<close>

definition first_lock_run :: "int globals option" where
  "first_lock_run =
     execution power_on
       [tick_at 3000 [NoLocation], tick_at 3100 [Incomplete, Location 22572645 88363892]]"

text \<open>What a mail reads when the link has dropped since the top of the pass.\<close>

definition link_drops :: mail_env where
  "link_drops = mail_ok\<lparr>me_wifi := False, me_lookup_wifi := False\<rparr>"

text \<open>The globals with all three LEDs in the fast-blink state (the sketch itself puts only
  the WiFi LED there, when a connection attempt fails).\<close>

definition all_fast_state :: "int globals" where
  "all_fast_state =
     initial_globals\<lparr>wifiLEDState := LED_BLINK_FAST, gpsLEDState := LED_BLINK_FAST,
                      systemLEDState := LED_BLINK_FAST\<rparr>"

section \<open>Properties\<close>

subsection \<open>What the LED and connection code leaves alone\<close>

lemma digitalWrite_frame: "same_but_leds s (digitalWrite pin v s)"
  by (simp add: same_but_leds_def digitalWrite_def)

lemma same_but_leds_refl: "same_but_leds s s"
  by (simp add: same_but_leds_def)

lemma same_but_leds_trans: "same_but_leds s t \<Longrightarrow> same_but_leds t u \<Longrightarrow> same_but_leds s u"
  by (simp add: same_but_leds_def)

lemma controlLED_frame: "same_but_leds s (controlLED ms pin st s)"
  by (cases st) (simp_all add: same_but_leds_def digitalWrite_def)

lemma controlLED_states:
  "wifiLEDState (controlLED ms pin st s) = wifiLEDState s"
  "gpsLEDState (controlLED ms pin st s) = gpsLEDState s"
  "systemLEDState (controlLED ms pin st s) = systemLEDState s"
  by (cases st; simp add: digitalWrite_def)+

lemma updateLEDs_frame: "same_but_leds s (updateLEDs r s)"
  unfolding updateLEDs_def Let_def
  by (rule same_but_leds_trans [OF _ controlLED_frame],
      rule same_but_leds_trans [OF _ controlLED_frame],
      rule same_but_leds_trans [OF _ controlLED_frame])
     (simp add: same_but_leds_def)

lemma connect_wait_frame:
  "connect_wait st ps s = Some t \<Longrightarrow> same_but_leds s t"
proof (induction ps arbitrary: s)
  case Nil
  then show ?case by simp
next
  case (Cons p ps)
  show ?case
  proof (cases "\<not> wp_connected p \<and> wp_millis p - st < 20000")
    case True
    with Cons.prems have "connect_wait st ps (updateLEDs (wp_leds p) s) = Some t" by simp
    from Cons.IH [OF this] updateLEDs_frame [of s "wp_leds p"] show ?thesis
      by (rule same_but_leds_trans [rotated])
  next
    case False
    with Cons.prems show ?thesis by (auto simp: same_but_leds_refl)
  qed
qed

lemma connectToWiFi_frame:
  "connectToWiFi env s = Some t \<Longrightarrow> same_but_leds s t"
  by (auto simp: connectToWiFi_def setWiFiLED_def same_but_leds_def
      split: option.splits if_splits dest!: connect_wait_frame)

subsection \<open>Mail, GPS data and the loop\<close>

lemma sendLocationEmail_log:
  "\<exists>e. mailLog (sendLocationEmail c env s) = e # mailLog s \<and> ev_caller e = c \<and>
       reached_send e = (me_wifi env \<and> gpsDataValid s) \<and>
       ev_lat e = currentLatitude s \<and> ev_lng e = currentLongitude s"
  by (simp add: sendLocationEmail_def record_mail_def Let_def)

lemma sendLocationEmail_keeps:
  "gpsDataValid (sendLocationEmail c env s) = gpsDataValid s"
  "firstGPSLock (sendLocationEmail c env s) = firstGPSLock s"
  "lastLocationSend (sendLocationEmail c env s) = lastLocationSend s"
  "lastGPSData (sendLocationEmail c env s) = lastGPSData s"
  "currentLatitude (sendLocationEmail c env s) = currentLatitude s"
  "currentLongitude (sendLocationEmail c env s) = currentLongitude s"
  "gpsLEDState (sendLocationEmail c env s) = gpsLEDState s"
  "systemLEDState (sendLocationEmail c env s) = systemLEDState s"
  "wifiLEDState (sendLocationEmail c env s) = wifiLEDState s"
  "pins (sendLocationEmail c env s) = pins s"
  by (simp_all add: sendLocationEmail_def record_mail_def Let_def)

lemma on_byte_locked:
  "\<not> firstGPSLock s \<Longrightarrow>
     \<not> firstGPSLock (on_byte env b s) \<and> mailLog (on_byte env b s) = mailLog s \<and>
     lastLocationSend (on_byte env b s) = lastLocationSend s"
  by (cases b) (simp_all add: setGPSLED_def)

lemma ingest_locked:
  "\<not> firstGPSLock s \<Longrightarrow>
     \<not> firstGPSLock (ingest env bs s) \<and> mailLog (ingest env bs s) = mailLog s \<and>
     lastLocationSend (ingest env bs s) = lastLocationSend s"
  by (induction bs arbitrary: s) (simp_all add: on_byte_locked)

lemma on_byte_valid: "gpsDataValid s \<Longrightarrow> gpsDataValid (on_byte env b s)"
  by (cases b) (simp_all add: setGPSLED_def sendLocationEmail_keeps Let_def)

lemma ingest_valid: "gpsDataValid s \<Longrightarrow> gpsDataValid (ingest env bs s)"
  by (induction bs arbitrary: s) (simp_all add: on_byte_valid)

lemma on_byte_lastLocationSend: "lastLocationSend (on_byte env b s) = lastLocationSend s"
  by (cases b) (simp_all add: setGPSLED_def sendLocationEmail_keeps Let_def)

lemma ingest_lastLocationSend: "lastLocationSend (ingest env bs s) = lastLocationSend s"
  by (induction bs arbitrary: s) (simp_all add: on_byte_lastLocationSend)

lemma updateGPSData_silent:
  "updateGPSData env [] ms s = (if 5000 < ms - lastGPSData s then s\<lparr>gpsLEDState := LED_OFF\<rparr> else s)"
  by (simp add: updateGPSData_def setGPSLED_def)

lemma updateGPSData_locked:
  "\<not> firstGPSLock s \<Longrightarrow>
     \<not> firstGPSLock (updateGPSData env bs ms s) \<and> mailLog (updateGPSData env bs ms s) = mailLog s"
  by (simp add: updateGPSData_def Let_def setGPSLED_def ingest_locked)

lemma updateGPSData_lastLocationSend:
  "lastLocationSend (updateGPSData env bs ms s) = lastLocationSend s"
  by (simp add: updateGPSData_def Let_def setGPSLED_def ingest_lastLocationSend)

lemma updateGPSData_valid: "gpsDataValid s \<Longrightarrow> gpsDataValid (updateGPSData env bs ms s)"
  by (simp add: updateGPSData_def Let_def setGPSLED_def ingest_valid)

lemma first_lock_calls_send:
  "first_lock_calls (sendLocationEmail c env s) =
     first_lock_calls s + (case c of FirstLockPath \<Rightarrow> 1 | PeriodicPath \<Rightarrow> 0)"
  by (cases c) (simp_all add: first_lock_calls_def sendLocationEmail_def record_mail_def Let_def)

lemma on_byte_first_lock:
  "firstGPSLock s \<Longrightarrow>
     first_lock_calls (on_byte env (Location lat lng) s) = first_lock_calls s + 1 \<and>
     \<not> firstGPSLock (on_byte env (Location lat lng) s) \<and>
     gpsDataValid (on_byte env (Location lat lng) s)"
  by (simp add: Let_def setGPSLED_def first_lock_calls_send sendLocationEmail_keeps)
     (simp add: first_lock_calls_def)

lemma on_byte_lock_inv: "lock_inv s \<Longrightarrow> lock_inv (on_byte env b s)"
proof (cases b)
  case (Location lat lng)
  assume inv: "lock_inv s"
  show ?thesis
  proof (cases "firstGPSLock s")
    case True
    with inv on_byte_first_lock [OF True, of env lat lng] show ?thesis
      by (simp add: lock_inv_def Location)
  next
    case False
    with inv show ?thesis
      by (simp add: lock_inv_def Location Let_def setGPSLED_def first_lock_calls_def)
  qed
qed (auto simp: lock_inv_def setGPSLED_def first_lock_calls_def split: if_splits)

lemma ingest_lock_inv: "lock_inv s \<Longrightarrow> lock_inv (ingest env bs s)"
  by (induction bs arbitrary: s) (simp_all add: on_byte_lock_inv)

lemma updateGPSData_lock_inv: "lock_inv s \<Longrightarrow> lock_inv (updateGPSData env bs ms s)"
  using ingest_lock_inv [of s env bs]
  by (auto simp: updateGPSData_def Let_def setGPSLED_def lock_inv_def first_lock_calls_def
      split: if_splits)

lemma same_but_leds_lock_inv: "same_but_leds s t \<Longrightarrow> lock_inv s \<Longrightarrow> lock_inv t"
  by (auto simp: same_but_leds_def lock_inv_def first_lock_calls_def split: if_splits)

lemma first_lock_calls_upd:
  "first_lock_calls (s\<lparr>lastLocationSend := x\<rparr>) = first_lock_calls s"
  by (simp add: first_lock_calls_def)

lemma periodic_lock_inv:
  "lock_inv s \<Longrightarrow> lock_inv ((sendLocationEmail PeriodicPath env s)\<lparr>lastLocationSend := x\<rparr>)"
  by (simp add: lock_inv_def first_lock_calls_upd first_lock_calls_send sendLocationEmail_keeps)

lemma loop_Some:
  assumes "loop i s = Some t"
  obtains s1 where "same_but_leds s s1"
    and "t = periodic_update i (updateGPSData (tk_lock_mail i) (tk_bytes i) (tk_gps_millis i) s1)"
proof -
  obtain s1 where s1: "(if \<not> tk_wifi i then connectToWiFi (tk_connect i) s else Some s) = Some s1"
    using assms by (auto simp: loop_def split: option.splits)
  then have "same_but_leds s s1"
    by (auto split: if_splits dest: connectToWiFi_frame simp: same_but_leds_refl)
  moreover from assms s1
  have "t = periodic_update i (updateGPSData (tk_lock_mail i) (tk_bytes i) (tk_gps_millis i) s1)"
    by (auto simp: loop_def Let_def handleGeoLinkerStatus_def periodic_update_def)
  ultimately show thesis by (rule that)
qed

lemma periodic_update_lock_inv: "lock_inv s \<Longrightarrow> lock_inv (periodic_update i s)"
  by (simp add: periodic_update_def periodic_lock_inv)

lemma loop_lock_inv:
  assumes "loop i s = Some t" and "lock_inv s"
  shows "lock_inv t"
proof -
  from assms(1) obtain s1 where "same_but_leds s s1"
    and t: "t = periodic_update i (updateGPSData (tk_lock_mail i) (tk_bytes i) (tk_gps_millis i) s1)"
    by (rule loop_Some)
  then have "lock_inv s1" using assms(2) by (blast intro: same_but_leds_lock_inv)
  then show ?thesis unfolding t
    by (intro periodic_update_lock_inv updateGPSData_lock_inv)
qed

lemma run_lock_inv: "run ticks s = Some t \<Longrightarrow> lock_inv s \<Longrightarrow> lock_inv t"
proof (induction ticks arbitrary: s)
  case Nil
  then show ?case by simp
next
  case (Cons i rest)
  then obtain s1 where "loop i s = Some s1" "run rest s1 = Some t"
    by (auto split: option.splits)
  with Cons show ?case by (blast intro: loop_lock_inv)
qed

lemma connect_wait_returns:
  "\<exists>p\<in>set ps. wp_connected p \<or> \<not> wp_millis p - st < 20000 \<Longrightarrow> \<exists>t. connect_wait st ps s = Some t"
  by (induction ps arbitrary: s) auto

lemma connectToWiFi_returns:
  "\<exists>p\<in>set (ce_polls env). wp_connected p \<or> \<not> wp_millis p - ce_startTime env < 20000 \<Longrightarrow>
     \<exists>t. connectToWiFi env s = Some t"
  using connect_wait_returns [of "ce_polls env" "ce_startTime env" "setWiFiLED LED_BLINK_SLOW s"]
  by (auto simp: connectToWiFi_def)

lemma sync_wait_frame:
  "sync_wait start now ps s = Some (now', t) \<Longrightarrow> same_but_leds s t"
proof (induction ps arbitrary: now s)
  case Nil
  then show ?case by (auto simp: same_but_leds_refl split: if_splits)
next
  case (Cons p ps)
  show ?case
  proof (cases "now < TIME_SANITY \<and> sp_millis p - start < 10000")
    case True
    with Cons.prems have "sync_wait start (sp_time p) ps (updateLEDs (sp_leds p) s) = Some (now', t)"
      by simp
    from Cons.IH [OF this] updateLEDs_frame [of s "sp_leds p"] show ?thesis
      by (rule same_but_leds_trans [rotated])
  next
    case False
    with Cons.prems show ?thesis by (auto simp: same_but_leds_refl)
  qed
qed

lemma sync_wait_times_out:
  assumes "now < TIME_SANITY"
    and "\<forall>p\<in>set ps. sp_time p < TIME_SANITY"
    and "\<exists>p\<in>set ps. \<not> sp_millis p - start < 10000"
  shows "\<exists>now' t. sync_wait start now ps s = Some (now', t) \<and> now' < TIME_SANITY"
  using assms
proof (induction ps arbitrary: now s)
  case Nil
  then show ?case by simp
next
  case (Cons p ps)
  show ?case
  proof (cases "sp_millis p - start < 10000")
    case True
    with Cons.prems have "sp_time p < TIME_SANITY" "\<forall>q\<in>set ps. sp_time q < TIME_SANITY"
      "\<exists>q\<in>set ps. \<not> sp_millis q - start < 10000"
      by auto
    from Cons.IH [OF this] True Cons.prems(1) show ?thesis by simp
  next
    case False
    with Cons.prems(1) show ?thesis by simp
  qed
qed

lemma syncTime_fails:
  assumes "se_now env < TIME_SANITY"
    and "\<forall>p\<in>set (se_polls env). sp_time p < TIME_SANITY"
    and "\<exists>p\<in>set (se_polls env). \<not> sp_millis p - se_start env < 10000"
  shows "\<exists>t. syncTime env s = Some (False, t) \<and> same_but_leds s t"
proof -
  from sync_wait_times_out [OF assms]
  obtain now' t where r: "sync_wait (se_start env) (se_now env) (se_polls env) s = Some (now', t)"
    and "now' < TIME_SANITY" by blast
  then have "syncTime env s = Some (False, t)" by (simp add: syncTime_def)
  with sync_wait_frame [OF r] show ?thesis by blast
qed

lemma initializeGeoLinker_warning:
  "systemLEDState s = LED_BLINK_SLOW \<Longrightarrow> systemLEDState (initializeGeoLinker env s) = LED_BLINK_SLOW"
  by (simp add: initializeGeoLinker_def Let_def setSystemLED_def)

lemma periodic_update_keeps:
  "systemLEDState (periodic_update i s) = systemLEDState s"
  "gpsDataValid (periodic_update i s) = gpsDataValid s"
  "firstGPSLock (periodic_update i s) = firstGPSLock s"
  by (simp_all add: periodic_update_def sendLocationEmail_keeps)

lemma on_byte_systemLED: "systemLEDState (on_byte env b s) = systemLEDState s"
  by (cases b) (simp_all add: setGPSLED_def sendLocationEmail_keeps Let_def)

lemma ingest_systemLED: "systemLEDState (ingest env bs s) = systemLEDState s"
  by (induction bs arbitrary: s) (simp_all add: on_byte_systemLED)

lemma updateGPSData_systemLED: "systemLEDState (updateGPSData env bs ms s) = systemLEDState s"
  by (simp add: updateGPSData_def Let_def setGPSLED_def ingest_systemLED)

lemma loop_systemLED: "loop i s = Some t \<Longrightarrow> systemLEDState t = systemLEDState s"
  by (erule loop_Some) (simp add: periodic_update_keeps updateGPSData_systemLED same_but_leds_def)

lemma run_systemLED: "run ticks s = Some t \<Longrightarrow> systemLEDState t = systemLEDState s"
proof (induction ticks arbitrary: s)
  case Nil
  then show ?case by simp
next
  case (Cons i rest)
  then obtain s1 where "loop i s = Some s1" "run rest s1 = Some t"
    by (auto split: option.splits)
  with Cons.IH [of s1] loop_systemLED [of i s s1] show ?case by simp
qed

section \<open>The claims\<close>

subsection \<open>C1: a silent GPS port\<close>

text \<open>
  C1 as stated fails: when \<open>updateGPSData\<close> reads no byte and more than 5000 ms have passed
  since the last one, \<open>gpsDataValid\<close> is not forced to false. Three seconds after power-on a
  valid location is decoded; a call at 9000 ms reads nothing, 6000 ms after the last byte;
  the GPS LED state becomes \<open>LED_OFF\<close> and \<open>gpsDataValid\<close> is still true.
\<close>

theorem stale_gps_keeps_validity_counterexample:
  "5000 < (9000 :: ulong) - lastGPSData locked_at_3s \<and>
   gpsDataValid locked_at_3s \<and>
   gpsDataValid (updateGPSData mail_ok [] 9000 locked_at_3s) \<and>
   gpsLEDState (updateGPSData mail_ok [] 9000 locked_at_3s) = LED_OFF"
  by (simp add: locked_at_3s_def updateGPSData_def initial_globals_def setGPSLED_def
      sendLocationEmail_def record_mail_def mail_ok_def Let_def)

text \<open>
  C1, amended: for every call of \<open>updateGPSData\<close> that reads no byte more than 5000 ms
  (as an unsigned 32-bit difference of \<open>millis()\<close> values) after the last byte was seen, the
  GPS LED state becomes \<open>LED_OFF\<close>, the "no data" status that differs from the
  "searching" status \<open>LED_BLINK_SLOW\<close>, whatever it was before, and nothing else changes:
  \<open>gpsDataValid\<close> keeps its value.
\<close>

theorem stale_gps_sets_led_off:
  assumes "5000 < ms - lastGPSData s"
  shows "updateGPSData env [] ms s = s\<lparr>gpsLEDState := LED_OFF\<rparr>"
  using assms by (simp add: updateGPSData_silent)

theorem stale_gps_sets_led_off_witness:
  "5000 < (9000 :: ulong) - lastGPSData locked_at_3s \<and>
   updateGPSData mail_ok [] 9000 locked_at_3s = locked_at_3s\<lparr>gpsLEDState := LED_OFF\<rparr>"
proof -
  have h: "5000 < (9000 :: ulong) - lastGPSData locked_at_3s"
    by (simp add: locked_at_3s_def updateGPSData_def initial_globals_def setGPSLED_def
        sendLocationEmail_def record_mail_def mail_ok_def Let_def)
  from h stale_gps_sets_led_off [OF h, of mail_ok] show ?thesis by simp
qed

subsection \<open>C9: a failed time synchronisation\<close>

text \<open>
  C9: when the clock is below the threshold at every read of \<open>syncTime\<close> and its loop
  condition is evaluated once with 10 s or more elapsed, \<open>syncTime\<close> returns false; if the
  connection attempt before it ends (a poll sees the link up, or 20 s elapsed), \<open>setup()\<close>
  runs to its end and leaves the system LED state at \<open>LED_BLINK_SLOW\<close> (warning), not
  \<open>LED_ON\<close> (error), and no pass of \<open>loop()\<close> changes it afterwards; and
  \<open>getCurrentTimestamp\<close> yields "Time not synchronized" whenever the clock it reads is
  below the threshold.
\<close>

theorem time_sync_failure_is_warning:
  assumes "se_now (su_sync env) < TIME_SANITY"
    and "\<forall>p\<in>set (se_polls (su_sync env)). sp_time p < TIME_SANITY"
    and "\<exists>p\<in>set (se_polls (su_sync env)). \<not> sp_millis p - se_start (su_sync env) < 10000"
    and "\<exists>p\<in>set (ce_polls (su_connect env)).
           wp_connected p \<or> \<not> wp_millis p - ce_startTime (su_connect env) < 20000"
  shows "(\<exists>t. syncTime (su_sync env) s = Some (False, t)) \<and>
         (\<exists>t. setup_sketch env s = Some t \<and> systemLEDState t = LED_BLINK_SLOW \<and>
              (\<forall>ticks u. run ticks t = Some u \<longrightarrow> systemLEDState u = LED_BLINK_SLOW)) \<and>
         (\<forall>now. now < TIME_SANITY \<longrightarrow> getCurrentTimestamp fmt now = ''Time not synchronized'')"
proof (intro conjI)
  show "\<exists>t. syncTime (su_sync env) s = Some (False, t)"
    using syncTime_fails [OF assms(1-3)] by blast
next
  define s3 where "s3 = setWiFiLED LED_BLINK_SLOW (setGPSLED LED_BLINK_SLOW
                          (setSystemLED LED_BLINK_SLOW (initializeLEDs s)))"
  from connectToWiFi_returns [OF assms(4)]
  obtain s4 where c: "connectToWiFi (su_connect env) s3 = Some s4" by blast
  from syncTime_fails [OF assms(1-3)]
  obtain s5 where y: "syncTime (su_sync env) s4 = Some (False, s5)" by blast
  define t where "t = initializeGeoLinker (su_geo env) (setSystemLED LED_BLINK_SLOW s5)"
  have "setup_sketch env s = Some t"
    using c y by (simp add: setup_sketch_def Let_def s3_def t_def)
  moreover have led: "systemLEDState t = LED_BLINK_SLOW"
    unfolding t_def by (rule initializeGeoLinker_warning) (simp add: setSystemLED_def)
  moreover have "\<forall>ticks u. run ticks t = Some u \<longrightarrow> systemLEDState u = LED_BLINK_SLOW"
    using led by (auto dest: run_systemLED)
  ultimately show "\<exists>t. setup_sketch env s = Some t \<and> systemLEDState t = LED_BLINK_SLOW \<and>
      (\<forall>ticks u. run ticks t = Some u \<longrightarrow> systemLEDState u = LED_BLINK_SLOW)"
    by blast
next
  show "\<forall>now. now < TIME_SANITY \<longrightarrow> getCurrentTimestamp fmt now = ''Time not synchronized''"
    by (simp add: getCurrentTimestamp_def)
qed

theorem time_sync_failure_is_warning_witness:
  "map_option fst (syncTime clock_unset (initial_globals :: int globals)) = Some False \<and>
   map_option systemLEDState (setup_sketch power_on_unsynced (initial_globals :: int globals))
     = Some LED_BLINK_SLOW \<and>
   getCurrentTimestamp (\<lambda>_. ''2025-07-30 14:30:25 IST'') 12 = ''Time not synchronized''"
proof -
  have e: "su_sync power_on_unsynced = clock_unset" "su_connect power_on_unsynced = link_up"
    by (simp_all add: power_on_unsynced_def power_on_def)
  have h1: "se_now (su_sync power_on_unsynced) < TIME_SANITY"
    by (simp add: e clock_unset_def TIME_SANITY_def)
  have h2: "\<forall>p\<in>set (se_polls (su_sync power_on_unsynced)). sp_time p < TIME_SANITY"
    unfolding e by code_simp
  have h3: "\<exists>p\<in>set (se_polls (su_sync power_on_unsynced)).
              \<not> sp_millis p - se_start (su_sync power_on_unsynced) < 10000"
    unfolding e by code_simp
  have h4: "\<exists>p\<in>set (ce_polls (su_connect power_on_unsynced)).
              wp_connected p \<or> \<not> wp_millis p - ce_startTime (su_connect power_on_unsynced) < 20000"
    by (simp add: e link_up_def)
  have h5: "(12 :: int) < TIME_SANITY" by (simp add: TIME_SANITY_def)
  from time_sync_failure_is_warning [OF h1 h2 h3 h4,
      of "initial_globals :: int globals" "\<lambda>_. ''2025-07-30 14:30:25 IST''"] h5
  show ?thesis by (auto simp: e)
qed

subsection \<open>C3: the first-lock mail\<close>

lemmas sketch_eval = execution_def setup_sketch_def initial_globals_def initializeLEDs_def
  digitalWrite_def setSystemLED_def setGPSLED_def setWiFiLED_def connectToWiFi_def syncTime_def
  initializeGeoLinker_def loop_def updateGPSData_def sendLocationEmail_def record_mail_def
  getAddressFromCoordinates_def handleGeoLinkerStatus_def TIME_SANITY_def
  LOCATION_SEND_INTERVAL_def Let_def no_led_reads_def link_up_def clock_synced_def power_on_def
  mail_ok_def tick_at_def

lemma lock_inv_initial: "lock_inv initial_globals"
  by (simp add: lock_inv_def initial_globals_def first_lock_calls_def)

lemma syncTime_frame: "syncTime env s = Some (b, t) \<Longrightarrow> same_but_leds s t"
  by (auto simp: syncTime_def split: option.splits dest: sync_wait_frame)

lemma setup_sketch_keeps:
  assumes "setup_sketch env s = Some t"
  shows "firstGPSLock t = firstGPSLock s \<and> gpsDataValid t = gpsDataValid s \<and>
         mailLog t = mailLog s \<and> lastLocationSend t = lastLocationSend s"
proof -
  define s3 where "s3 = setWiFiLED LED_BLINK_SLOW (setGPSLED LED_BLINK_SLOW
                          (setSystemLED LED_BLINK_SLOW (initializeLEDs s)))"
  from assms obtain s4 b s5 where c: "connectToWiFi (su_connect env) s3 = Some s4"
    and y: "syncTime (su_sync env) s4 = Some (b, s5)"
    and t: "t = initializeGeoLinker (su_geo env)
                  (if \<not> b then setSystemLED LED_BLINK_SLOW s5 else setSystemLED LED_OFF s5)"
    by (auto simp: setup_sketch_def Let_def s3_def split: option.splits)
  have "same_but_leds s3 s5"
    using connectToWiFi_frame [OF c] syncTime_frame [OF y] by (rule same_but_leds_trans)
  then show ?thesis
    by (simp add: t s3_def same_but_leds_def initializeGeoLinker_def Let_def setSystemLED_def
        setGPSLED_def setWiFiLED_def initializeLEDs_def digitalWrite_def)
qed

lemma lock_inv_cong:
  "firstGPSLock t = firstGPSLock s \<Longrightarrow> gpsDataValid t = gpsDataValid s \<Longrightarrow>
     mailLog t = mailLog s \<Longrightarrow> lock_inv t = lock_inv s"
  by (simp add: lock_inv_def first_lock_calls_def)

lemma execution_lock_inv:
  fixes s :: "('d::zero) globals"
  assumes "execution env ticks = Some s"
  shows "lock_inv s"
proof -
  from assms obtain s0 where b: "setup_sketch env (initial_globals :: 'd globals) = Some s0"
    and r: "run ticks s0 = Some s"
    by (auto simp: execution_def split: option.splits)
  have "lock_inv s0 = lock_inv (initial_globals :: 'd globals)"
    by (rule lock_inv_cong) (simp_all add: setup_sketch_keeps [OF b])
  then have "lock_inv s0" by (simp add: lock_inv_initial)
  with r show ?thesis by (rule run_lock_inv)
qed

lemma lock_inv_facts:
  "lock_inv s \<Longrightarrow> first_lock_calls s = (if gpsDataValid s then 1 else 0) \<and>
     firstGPSLock s = (\<not> gpsDataValid s)"
  by (auto simp: lock_inv_def split: if_splits)

text \<open>
  C3: in every state the program reaches from power-on, the first-lock path has called
  \<open>sendLocationEmail\<close> once if \<open>gpsDataValid\<close> is true and not at all if it is false, and
  \<open>firstGPSLock\<close> is the negation of \<open>gpsDataValid\<close>; the same holds after any further
  passes of \<open>loop()\<close>, and \<open>gpsDataValid\<close> stays true once it is. So the pass in which
  \<open>gpsDataValid\<close> goes from false to true makes the one first-lock call, and no later pass
  makes another, whatever the GPS LED does in between. The call is unconditional: a byte that
  completes a valid location while \<open>firstGPSLock\<close> is set calls \<open>sendLocationEmail\<close> once
  and clears the flag, whatever the link, the clock and the outcome of the send are (with the
  link down the call stops at the guard of \<open>sendLocationEmail\<close>, and is not repeated).
\<close>

theorem first_lock_mail_once:
  assumes "execution env ticks = Some s" and "run later s = Some t"
  shows "first_lock_calls s = (if gpsDataValid s then 1 else 0) \<and>
         firstGPSLock s = (\<not> gpsDataValid s) \<and>
         first_lock_calls t = (if gpsDataValid t then 1 else 0) \<and>
         firstGPSLock t = (\<not> gpsDataValid t) \<and>
         (gpsDataValid s \<longrightarrow> gpsDataValid t) \<and>
         (firstGPSLock u \<longrightarrow>
            first_lock_calls (on_byte e (Location lat lng) u) = first_lock_calls u + 1 \<and>
            \<not> firstGPSLock (on_byte e (Location lat lng) u))"
proof -
  have s: "lock_inv s" using assms(1) by (rule execution_lock_inv)
  with assms(2) have t: "lock_inv t" by (rule run_lock_inv)
  have "gpsDataValid t" if "gpsDataValid s"
  proof -
    from that s have "\<not> firstGPSLock s" by (simp add: lock_inv_facts)
    with assms(2) have "\<not> firstGPSLock t"
    proof (induction later arbitrary: s)
      case Nil
      then show ?case by simp
    next
      case (Cons i rest)
      then obtain s1 where l: "loop i s = Some s1" and r: "run rest s1 = Some t"
        by (auto split: option.splits)
      from l Cons.prems(2) have "\<not> firstGPSLock s1"
        by (auto elim!: loop_Some simp: periodic_update_keeps updateGPSData_locked
            same_but_leds_def)
      with Cons.IH r show ?case by blast
    qed
    with t show ?thesis by (simp add: lock_inv_facts)
  qed
  with lock_inv_facts [OF s] lock_inv_facts [OF t] on_byte_first_lock [of u e lat lng]
  show ?thesis by simp
qed

theorem first_lock_mail_once_witness:
  "first_lock_run = Some (the first_lock_run) \<and>
   gpsDataValid (the first_lock_run) \<and>
   first_lock_calls (the first_lock_run) = 1 \<and>
   \<not> firstGPSLock (the first_lock_run) \<and>
   first_lock_calls (the (run [tick_at 3200 [Location 22572650 88363900], tick_at 3300 []]
                            (the first_lock_run))) = 1 \<and>
   gpsDataValid (the (run [tick_at 3200 [Location 22572650 88363900], tick_at 3300 []]
                        (the first_lock_run))) \<and>
   first_lock_calls (on_byte mail_ok (Location 22572645 88363892) (initial_globals :: int globals)) = 1"
proof -
  have h0: "first_lock_run = Some (the first_lock_run)"
    by (simp add: first_lock_run_def sketch_eval)
  have h1: "execution power_on
       [tick_at 3000 [NoLocation], tick_at 3100 [Incomplete, Location 22572645 88363892]]
       = Some (the first_lock_run)"
    using h0 by (simp only: first_lock_run_def)
  have h2: "run [tick_at 3200 [Location 22572650 88363900], tick_at 3300 []] (the first_lock_run)
       = Some (the (run [tick_at 3200 [Location 22572650 88363900], tick_at 3300 []]
                       (the first_lock_run)))"
    by (simp add: first_lock_run_def sketch_eval)
  have h3: "gpsDataValid (the first_lock_run)"
    by (simp add: first_lock_run_def sketch_eval)
  have h4: "firstGPSLock (initial_globals :: int globals)"
    "first_lock_calls (initial_globals :: int globals) = 0"
    by (simp_all add: initial_globals_def first_lock_calls_def)
  from first_lock_mail_once [OF h1 h2, of "initial_globals :: int globals" mail_ok
      22572645 88363892] h0 h3 h4
  show ?thesis by simp
qed

subsection \<open>C4 and C5: the periodic mail and its time stamp\<close>

lemma first_lock_run_facts:
  "first_lock_run = Some (the first_lock_run)"
  "\<not> firstGPSLock (the first_lock_run)"
  "gpsDataValid (the first_lock_run)"
  "lastLocationSend (the first_lock_run) = 0"
  "sends_reached (the first_lock_run) = 1"
  "map ev_outcome (mailLog (the first_lock_run)) = [Sent]"
  by (simp_all add: first_lock_run_def sketch_eval sends_reached_def)

lemma map_option_the: "x = Some (the x) \<Longrightarrow> map_option f x = Some (f (the x))"
  by (cases x) simp_all

lemma sends_reached_periodic:
  "sends_reached (periodic_update i s) =
     sends_reached s +
     (if LOCATION_SEND_INTERVAL < tk_millis i - lastLocationSend s \<and> gpsDataValid s \<and>
         me_wifi (tk_mail i) then 1 else 0)"
  by (simp add: periodic_update_def sends_reached_def sendLocationEmail_def record_mail_def Let_def)

lemma lastLocationSend_periodic:
  "lastLocationSend (periodic_update i s) =
     (if LOCATION_SEND_INTERVAL < tk_millis i - lastLocationSend s \<and> gpsDataValid s
      then tk_sent_millis i else lastLocationSend s)"
  by (simp add: periodic_update_def)

lemma sends_reached_cong: "mailLog t = mailLog s \<Longrightarrow> sends_reached t = sends_reached s"
  by (simp add: sends_reached_def)

text \<open>
  C4 as stated fails at the boundary: the condition of \<open>loop()\<close> is
  \<open>millis() - lastLocationSend > LOCATION_SEND_INTERVAL\<close>, not \<open>>=\<close>. After the first lock,
  with \<open>lastLocationSend = 0\<close>, a valid fix and the link up, a pass at exactly 300000 ms
  sends nothing.
\<close>

theorem periodic_at_exact_interval_counterexample:
  "\<not> firstGPSLock (the first_lock_run) \<and>
   gpsDataValid (the first_lock_run) \<and>
   tk_wifi (tick_at 300000 [] :: int tick) \<and>
   me_wifi (tk_mail (tick_at 300000 [] :: int tick)) \<and>
   tk_millis (tick_at 300000 [] :: int tick) - lastLocationSend (the first_lock_run) = 300000 \<and>
   map_option sends_reached (loop (tick_at 300000 []) (the first_lock_run))
     = Some (sends_reached (the first_lock_run)) \<and>
   map_option gpsDataValid (loop (tick_at 300000 []) (the first_lock_run)) = Some True"
  by (simp add: first_lock_run_def sketch_eval sends_reached_def)

text \<open>
  C4, amended: in a pass of \<open>loop()\<close> that starts after the first lock
  (\<open>firstGPSLock\<close> is false), one more call of \<open>sendLocationEmail\<close> reaches the send step
  exactly when \<open>millis() - lastLocationSend > 300000\<close> (strictly greater, as an unsigned
  32-bit difference, with the \<open>millis()\<close> read in the condition of \<open>loop()\<close>) and
  \<open>gpsDataValid\<close> is true (after the GPS update of this pass) and \<open>WiFi.status()\<close> is
  connected at the guard of \<open>sendLocationEmail\<close>; otherwise none does.
\<close>

theorem periodic_mail_iff:
  assumes "loop i s = Some t" and "\<not> firstGPSLock s"
  shows "sends_reached t =
           sends_reached s +
           (if LOCATION_SEND_INTERVAL < tk_millis i - lastLocationSend s \<and> gpsDataValid t \<and>
               me_wifi (tk_mail i) then 1 else 0)"
proof -
  from assms(1) obtain s1 where f: "same_but_leds s s1"
    and t: "t = periodic_update i (updateGPSData (tk_lock_mail i) (tk_bytes i) (tk_gps_millis i) s1)"
    by (rule loop_Some)
  let ?s2 = "updateGPSData (tk_lock_mail i) (tk_bytes i) (tk_gps_millis i) s1"
  from f assms(2) have "\<not> firstGPSLock s1" by (simp add: same_but_leds_def)
  then have "mailLog ?s2 = mailLog s1" by (simp add: updateGPSData_locked)
  with f have "mailLog ?s2 = mailLog s" by (simp add: same_but_leds_def)
  then have m: "sends_reached ?s2 = sends_reached s" by (rule sends_reached_cong)
  have l: "lastLocationSend ?s2 = lastLocationSend s"
    using f by (simp add: updateGPSData_lastLocationSend same_but_leds_def)
  have v: "gpsDataValid t = gpsDataValid ?s2" by (simp add: t periodic_update_keeps)
  show ?thesis unfolding t sends_reached_periodic m l v [unfolded t] ..
qed

theorem periodic_mail_iff_witness:
  "map_option sends_reached (loop (tick_at 300001 []) (the first_lock_run)) = Some 2 \<and>
   sends_reached (the first_lock_run) = 1"
proof -
  have h1: "loop (tick_at 300001 []) (the first_lock_run)
              = Some (the (loop (tick_at 300001 []) (the first_lock_run)))"
    by (simp add: first_lock_run_def sketch_eval)
  have h3: "gpsDataValid (the (loop (tick_at 300001 []) (the first_lock_run)))"
    "me_wifi (tk_mail (tick_at 300001 [] :: int tick))"
    "tk_millis (tick_at 300001 [] :: int tick) = 300001"
    by (simp_all add: first_lock_run_def sketch_eval)
  have h4: "LOCATION_SEND_INTERVAL < 300001" by (simp add: LOCATION_SEND_INTERVAL_def)
  from periodic_mail_iff [OF h1 first_lock_run_facts(2)] h3 h4 first_lock_run_facts(4,5)
  have "sends_reached (the (loop (tick_at 300001 []) (the first_lock_run))) = 2" by simp
  with first_lock_run_facts(5) show ?thesis by (simp add: map_option_the [OF h1])
qed

text \<open>
  C5 as stated fails in its "only on such attempts": \<open>loop()\<close> stores \<open>millis()\<close> in
  \<open>lastLocationSend\<close> after every call of \<open>sendLocationEmail\<close> it makes, also when the call
  returned at its guard. After the first lock, a pass at 301000 ms finds the link down at the
  guard: the call is recorded as \<open>CannotSend\<close>, no further call has reached the send step,
  and \<open>lastLocationSend\<close> goes from 0 to 303500.
\<close>

theorem stamp_without_send_counterexample:
  "map_option (\<lambda>t. map ev_outcome (mailLog t))
     (loop ((tick_at 301000 []) \<lparr>tk_mail := link_drops\<rparr>) (the first_lock_run))
     = Some [CannotSend, Sent] \<and>
   map_option sends_reached
     (loop ((tick_at 301000 []) \<lparr>tk_mail := link_drops\<rparr>) (the first_lock_run))
     = Some (sends_reached (the first_lock_run)) \<and>
   lastLocationSend (the first_lock_run) = 0 \<and>
   map_option lastLocationSend
     (loop ((tick_at 301000 []) \<lparr>tk_mail := link_drops\<rparr>) (the first_lock_run))
     = Some 303500"
  by (simp add: first_lock_run_def sketch_eval sends_reached_def link_drops_def)

text \<open>
  C5, amended: in a pass of \<open>loop()\<close> that starts after the first lock,
  \<open>lastLocationSend\<close> becomes the \<open>millis()\<close> read after \<open>sendLocationEmail\<close> returned
  whenever the periodic branch is taken (\<open>millis() - lastLocationSend > 300000\<close> and
  \<open>gpsDataValid\<close>), whether the call reached the send step or not and whether the send
  succeeded or not, and keeps its value otherwise; so after a failed periodic attempt the next
  one is at least the interval away.
\<close>

theorem periodic_branch_stamps_time:
  assumes "loop i s = Some t" and "\<not> firstGPSLock s"
  shows "lastLocationSend t =
           (if LOCATION_SEND_INTERVAL < tk_millis i - lastLocationSend s \<and> gpsDataValid t
            then tk_sent_millis i else lastLocationSend s)"
proof -
  from assms(1) obtain s1 where f: "same_but_leds s s1"
    and t: "t = periodic_update i (updateGPSData (tk_lock_mail i) (tk_bytes i) (tk_gps_millis i) s1)"
    by (rule loop_Some)
  let ?s2 = "updateGPSData (tk_lock_mail i) (tk_bytes i) (tk_gps_millis i) s1"
  have l: "lastLocationSend ?s2 = lastLocationSend s"
    using f by (simp add: updateGPSData_lastLocationSend same_but_leds_def)
  have v: "gpsDataValid t = gpsDataValid ?s2" by (simp add: t periodic_update_keeps)
  show ?thesis unfolding t lastLocationSend_periodic l v [unfolded t] ..
qed

theorem periodic_branch_stamps_time_witness:
  "map_option lastLocationSend
     (loop ((tick_at 301000 []) \<lparr>tk_mail := mail_ok\<lparr>me_send_ok := False\<rparr>\<rparr>) (the first_lock_run))
     = Some 303500 \<and>
   map_option (\<lambda>t. map ev_outcome (mailLog t))
     (loop ((tick_at 301000 []) \<lparr>tk_mail := mail_ok\<lparr>me_send_ok := False\<rparr>\<rparr>) (the first_lock_run))
     = Some [SendFailed, Sent]"
proof -
  let ?i = "(tick_at 301000 []) \<lparr>tk_mail := mail_ok\<lparr>me_send_ok := False\<rparr>\<rparr> :: int tick"
  have h1: "loop ?i (the first_lock_run) = Some (the (loop ?i (the first_lock_run)))"
    by (simp add: first_lock_run_def sketch_eval)
  have h3: "gpsDataValid (the (loop ?i (the first_lock_run)))"
    "tk_millis ?i = 301000" "tk_sent_millis ?i = 303500"
    by (simp_all add: first_lock_run_def sketch_eval)
  have h4: "LOCATION_SEND_INTERVAL < 301000" by (simp add: LOCATION_SEND_INTERVAL_def)
  have h5: "map ev_outcome (mailLog (the (loop ?i (the first_lock_run)))) = [SendFailed, Sent]"
    by (simp add: first_lock_run_def sketch_eval)
  from periodic_branch_stamps_time [OF h1 first_lock_run_facts(2)] h3 h4 first_lock_run_facts(4)
  have "lastLocationSend (the (loop ?i (the first_lock_run))) = 303500" by simp
  with h5 show ?thesis by (simp add: map_option_the [OF h1])
qed

subsection \<open>C7: the validity flag is never cleared\<close>

lemma loop_valid: "loop i s = Some t \<Longrightarrow> gpsDataValid s \<Longrightarrow> gpsDataValid t"
  by (erule loop_Some) (simp add: periodic_update_keeps updateGPSData_valid same_but_leds_def)

lemma run_valid: "run ticks s = Some t \<Longrightarrow> gpsDataValid s \<Longrightarrow> gpsDataValid t"
proof (induction ticks arbitrary: s)
  case Nil
  then show ?case by simp
next
  case (Cons i rest)
  then obtain s1 where "loop i s = Some s1" "run rest s1 = Some t"
    by (auto split: option.splits)
  with Cons show ?case by (blast intro: loop_valid)
qed

lemma silent_pass_mails_last_fix:
  assumes "gpsDataValid s" and "tk_bytes i = []" and "tk_wifi i" and "me_wifi (tk_mail i)"
    and "LOCATION_SEND_INTERVAL < tk_millis i - lastLocationSend s"
  shows "\<exists>t e. loop i s = Some t \<and> mailLog t = e # mailLog s \<and> ev_caller e = PeriodicPath \<and>
           reached_send e \<and> ev_lat e = currentLatitude s \<and> ev_lng e = currentLongitude s \<and>
           gpsDataValid t \<and> currentLatitude t = currentLatitude s \<and>
           currentLongitude t = currentLongitude s"
  using assms
  by (simp add: loop_def updateGPSData_silent handleGeoLinkerStatus_def Let_def
      sendLocationEmail_def record_mail_def)

text \<open>
  C7: once \<open>gpsDataValid\<close> is true it is true after any number of passes of \<open>loop()\<close>
  (and after \<open>setup()\<close>, the only other entry point); a call of \<open>updateGPSData\<close> that reads
  no byte changes at most the GPS LED state, to \<open>LED_OFF\<close> when more than 5000 ms have
  passed since the last byte; and a pass that reads no GPS byte, with the link up and the
  interval elapsed, sends the periodic mail with the coordinates decoded last, however long
  ago the last byte was read (nothing is assumed about \<open>lastGPSData\<close>).
\<close>

theorem gps_validity_never_reset:
  assumes "gpsDataValid s"
  shows "(\<forall>ticks t. run ticks s = Some t \<longrightarrow> gpsDataValid t) \<and>
         (\<forall>env t. setup_sketch env s = Some t \<longrightarrow> gpsDataValid t) \<and>
         updateGPSData env [] ms s =
           (if 5000 < ms - lastGPSData s then s\<lparr>gpsLEDState := LED_OFF\<rparr> else s) \<and>
         (tk_bytes i = [] \<and> tk_wifi i \<and> me_wifi (tk_mail i) \<and>
          LOCATION_SEND_INTERVAL < tk_millis i - lastLocationSend s \<longrightarrow>
            (\<exists>t e. loop i s = Some t \<and> mailLog t = e # mailLog s \<and> ev_caller e = PeriodicPath \<and>
               reached_send e \<and> ev_lat e = currentLatitude s \<and> ev_lng e = currentLongitude s \<and>
               gpsDataValid t \<and> currentLatitude t = currentLatitude s \<and>
               currentLongitude t = currentLongitude s))"
proof (intro conjI allI impI)
  fix ticks t assume "run ticks s = Some t"
  then show "gpsDataValid t" using assms by (rule run_valid)
next
  fix env t assume "setup_sketch env s = Some t"
  from setup_sketch_keeps [OF this] assms show "gpsDataValid t" by simp
next
  show "updateGPSData env [] ms s =
          (if 5000 < ms - lastGPSData s then s\<lparr>gpsLEDState := LED_OFF\<rparr> else s)"
    by (rule updateGPSData_silent)
next
  assume "tk_bytes i = [] \<and> tk_wifi i \<and> me_wifi (tk_mail i) \<and>
          LOCATION_SEND_INTERVAL < tk_millis i - lastLocationSend s"
  with assms show "\<exists>t e. loop i s = Some t \<and> mailLog t = e # mailLog s \<and>
      ev_caller e = PeriodicPath \<and> reached_send e \<and> ev_lat e = currentLatitude s \<and>
      ev_lng e = currentLongitude s \<and> gpsDataValid t \<and> currentLatitude t = currentLatitude s \<and>
      currentLongitude t = currentLongitude s"
    by (intro silent_pass_mails_last_fix) simp_all
qed

theorem gps_validity_never_reset_witness:
  "gpsDataValid (the first_lock_run) \<and>
   map_option gpsDataValid (run [tick_at 1000000 [], tick_at 2000000 []] (the first_lock_run))
     = Some True \<and>
   updateGPSData mail_ok [] 2000000 (the first_lock_run)
     = (the first_lock_run)\<lparr>gpsLEDState := LED_OFF\<rparr> \<and>
   (\<exists>t e. loop (tick_at 2000000 []) (the first_lock_run) = Some t \<and>
      mailLog t = e # mailLog (the first_lock_run) \<and> ev_caller e = PeriodicPath \<and>
      reached_send e \<and> ev_lat e = 22572645 \<and> ev_lng e = 88363892)"
proof -
  let ?r = "run [tick_at 1000000 [], tick_at 2000000 []] (the first_lock_run)"
  let ?i = "tick_at 2000000 [] :: int tick"
  have h1: "?r = Some (the ?r)"
    by (simp add: first_lock_run_def sketch_eval)
  have h2: "5000 < (2000000 :: ulong) - lastGPSData (the first_lock_run)"
    by (simp add: first_lock_run_def sketch_eval)
  have h3: "tk_bytes ?i = [] \<and> tk_wifi ?i \<and> me_wifi (tk_mail ?i) \<and>
            LOCATION_SEND_INTERVAL < tk_millis ?i - lastLocationSend (the first_lock_run)"
    by (simp add: first_lock_run_facts(4) tick_at_def mail_ok_def LOCATION_SEND_INTERVAL_def)
  have h4: "currentLatitude (the first_lock_run) = 22572645"
    "currentLongitude (the first_lock_run) = 88363892"
    by (simp_all add: first_lock_run_def sketch_eval)
  note inst = gps_validity_never_reset [OF first_lock_run_facts(3), of mail_ok 2000000 ?i]
  from inst h1 have a: "gpsDataValid (the ?r)" by blast
  from inst h2 have b: "updateGPSData mail_ok [] 2000000 (the first_lock_run)
     = (the first_lock_run)\<lparr>gpsLEDState := LED_OFF\<rparr>" by simp
  from inst h3 have c: "\<exists>t e. loop ?i (the first_lock_run) = Some t \<and>
      mailLog t = e # mailLog (the first_lock_run) \<and> ev_caller e = PeriodicPath \<and>
      reached_send e \<and> ev_lat e = currentLatitude (the first_lock_run) \<and>
      ev_lng e = currentLongitude (the first_lock_run)" by blast
  from a b c first_lock_run_facts(3) show ?thesis
    unfolding h4 by (simp add: map_option_the [OF h1] del: run.simps)
qed

subsection \<open>C2: what a pass of the loop renders\<close>

text \<open>
  C2 does not hold of the code: \<open>loop()\<close> has no call of \<open>updateLEDs\<close>. The LEDs are
  driven only from the polling loops of \<open>connectToWiFi\<close> and \<open>syncTime\<close> ("Keep LEDs
  updating during connection"), so a pass that finds the link up writes no pin. From
  power-on with the link up at once, after the pass that decodes the first valid location the
  GPS LED state is \<open>LED_ON\<close> and the WiFi LED state is \<open>LED_ON\<close>, and both pins are still
  low; one call of \<open>updateLEDs\<close> in that state would set both high.
\<close>

theorem loop_does_not_render:
  "map_option (\<lambda>t. (gpsLEDState t, pins t LED_GPS_PIN, wifiLEDState t, pins t LED_WIFI_PIN))
     first_lock_run = Some (LED_ON, False, LED_ON, False) \<and>
   pins (updateLEDs no_led_reads (the first_lock_run)) LED_GPS_PIN \<and>
   pins (updateLEDs no_led_reads (the first_lock_run)) LED_WIFI_PIN"
  by (simp add: first_lock_run_def sketch_eval updateLEDs_def LED_GPS_PIN_def LED_WIFI_PIN_def
      LED_SYSTEM_PIN_def LED_BLINK_INTERVAL_def)

subsection \<open>C6: two mails in one pass\<close>

text \<open>
  C6 does not hold of the code: the first-lock path calls \<open>sendLocationEmail\<close> without
  storing \<open>millis()\<close> in \<open>lastLocationSend\<close>, as the periodic path does. When the first
  valid location is decoded 400 seconds after power-on with the link up, the first-lock mail
  goes out, \<open>lastLocationSend\<close> is still 0, and the periodic mail goes out in the same pass.
\<close>

theorem first_lock_and_periodic_same_pass:
  "map_option (\<lambda>t. (map ev_caller (mailLog t), map ev_outcome (mailLog t), firstGPSLock t))
     (execution power_on [tick_at 400000 [Location (22572645 :: int) 88363892]])
     = Some ([PeriodicPath, FirstLockPath], [Sent, Sent], False)"
  by (simp add: sketch_eval)

subsection \<open>C8: fast blink\<close>

lemma fast_phase: "(ms mod (LED_FAST_BLINK_INTERVAL * 2) < LED_FAST_BLINK_INTERVAL)
    = (unat ms mod 400 < 200)"
  by (simp add: LED_FAST_BLINK_INTERVAL_def word_less_nat_alt unat_mod)

lemma controlLED_fast:
  "pins (controlLED ms pin LED_BLINK_FAST s) pin = (unat ms mod 400 < 200)"
  by (simp add: digitalWrite_def fast_phase)

lemma controlLED_other_pin:
  "q \<noteq> pin \<Longrightarrow> pins (controlLED ms pin st s) q = pins s q"
  by (cases st) (simp_all add: digitalWrite_def)

lemma blink_step_states:
  "wifiLEDState (if c then s\<lparr>ledBlinkState := b, lastLEDUpdate := u\<rparr> else s) = wifiLEDState s"
  "gpsLEDState (if c then s\<lparr>ledBlinkState := b, lastLEDUpdate := u\<rparr> else s) = gpsLEDState s"
  "systemLEDState (if c then s\<lparr>ledBlinkState := b, lastLEDUpdate := u\<rparr> else s) = systemLEDState s"
  by simp_all

lemma updateLEDs_fast:
  "wifiLEDState s = LED_BLINK_FAST \<Longrightarrow>
     pins (updateLEDs r s) LED_WIFI_PIN = (unat (lr_wifi r) mod 400 < 200)"
  "gpsLEDState s = LED_BLINK_FAST \<Longrightarrow>
     pins (updateLEDs r s) LED_GPS_PIN = (unat (lr_gps r) mod 400 < 200)"
  "systemLEDState s = LED_BLINK_FAST \<Longrightarrow>
     pins (updateLEDs r s) LED_SYSTEM_PIN = (unat (lr_system r) mod 400 < 200)"
  by (simp_all add: updateLEDs_def Let_def controlLED_states controlLED_other_pin
      controlLED_fast blink_step_states LED_WIFI_PIN_def LED_GPS_PIN_def LED_SYSTEM_PIN_def
      del: controlLED.simps)

text \<open>
  C8: \<open>controlLED\<close> in state \<open>LED_BLINK_FAST\<close> sets the pin high exactly when the
  \<open>millis()\<close> it reads, modulo 400, is below 200; the slow-blink toggle \<open>ledBlinkState\<close> and
  the time of its last change play no part in it (changing them before the call changes
  nothing but themselves after it). The same holds of each of the three channels in
  \<open>updateLEDs\<close>, whether or not that call has just flipped the slow-blink toggle.
\<close>

theorem fast_blink_from_clock:
  "pins (controlLED ms pin LED_BLINK_FAST s) pin = (unat ms mod 400 < 200) \<and>
   controlLED ms pin LED_BLINK_FAST (s\<lparr>ledBlinkState := b, lastLEDUpdate := u\<rparr>)
     = (controlLED ms pin LED_BLINK_FAST s)\<lparr>ledBlinkState := b, lastLEDUpdate := u\<rparr> \<and>
   (wifiLEDState s = LED_BLINK_FAST \<longrightarrow>
      pins (updateLEDs r s) LED_WIFI_PIN = (unat (lr_wifi r) mod 400 < 200)) \<and>
   (gpsLEDState s = LED_BLINK_FAST \<longrightarrow>
      pins (updateLEDs r s) LED_GPS_PIN = (unat (lr_gps r) mod 400 < 200)) \<and>
   (systemLEDState s = LED_BLINK_FAST \<longrightarrow>
      pins (updateLEDs r s) LED_SYSTEM_PIN = (unat (lr_system r) mod 400 < 200))"
  using updateLEDs_fast [of s r]
  by (simp add: controlLED_fast del: controlLED.simps) (simp add: digitalWrite_def)

theorem fast_blink_from_clock_witness:
  "pins (updateLEDs \<lparr> lr_now = 1000, lr_wifi = 1399, lr_gps = 1400, lr_system = 1600 \<rparr>
           all_fast_state) LED_WIFI_PIN \<and>
   \<not> pins (updateLEDs \<lparr> lr_now = 1000, lr_wifi = 1399, lr_gps = 1400, lr_system = 1600 \<rparr>
             all_fast_state) LED_GPS_PIN \<and>
   pins (updateLEDs \<lparr> lr_now = 1000, lr_wifi = 1399, lr_gps = 1400, lr_system = 1600 \<rparr>
           all_fast_state) LED_SYSTEM_PIN \<and>
   ledBlinkState (updateLEDs \<lparr> lr_now = 1000, lr_wifi = 1399, lr_gps = 1400, lr_system = 1600 \<rparr>
                    all_fast_state) \<and>
   \<not> ledBlinkState all_fast_state"
proof -
  let ?r = "\<lparr> lr_now = 1000, lr_wifi = 1399, lr_gps = 1400, lr_system = 1600 \<rparr>"
  have h: "wifiLEDState all_fast_state = LED_BLINK_FAST"
    "gpsLEDState all_fast_state = LED_BLINK_FAST"
    "systemLEDState all_fast_state = LED_BLINK_FAST"
    by (simp_all add: all_fast_state_def)
  have b: "ledBlinkState (updateLEDs ?r all_fast_state)" "\<not> ledBlinkState all_fast_state"
    by (simp_all add: all_fast_state_def initial_globals_def updateLEDs_def digitalWrite_def
        LED_BLINK_INTERVAL_def Let_def)
  from fast_blink_from_clock [where s = all_fast_state and r = ?r] h b
  show ?thesis by simp
qed

subsection \<open>C10: the offline buffer\<close>

lemma buffer_push_drop:
  assumes "0 < cap" and "length buf \<le> cap"
  shows "buffer_push cap x buf = drop (length (buf @ [x]) - cap) (buf @ [x])"
proof (cases "length buf < cap")
  case True
  then show ?thesis by (simp add: buffer_push_def)
next
  case False
  with assms have "length buf = cap" "buf \<noteq> []" by auto
  then show ?thesis by (cases buf) (simp_all add: buffer_push_def)
qed

lemma buffer_pushes_drop:
  assumes "0 < cap" and "length buf \<le> cap"
  shows "buffer_pushes cap xs buf = drop (length (buf @ xs) - cap) (buf @ xs)"
  using assms(2)
proof (induction xs arbitrary: buf)
  case Nil
  then show ?case by simp
next
  case (Cons x xs)
  show ?case
  proof (cases "length buf < cap")
    case True
    then have "length (buf @ [x]) \<le> cap" by simp
    from Cons.IH [OF this] True show ?thesis by (simp add: buffer_push_def)
  next
    case False
    with Cons.prems assms(1) obtain a rest where buf: "buf = a # rest" and len: "length rest + 1 = cap"
      by (cases buf) auto
    from len have cap: "cap = Suc (length rest)" by simp
    then have "length (rest @ [x]) \<le> cap" by simp
    from Cons.IH [OF this] show ?thesis by (simp add: buffer_push_def buf cap)
  qed
qed

text \<open>
  C10, on the buffer as the spec describes it: \<open>initializeGeoLinker\<close> configures the
  capacity \<open>offlineBufferLimit\<close>, which is 50. A buffer within the capacity stays within it
  after any sequence of pushes, and then holds exactly the last 50 of the entries it held and
  was given, in order; a push onto a full buffer drops the oldest entry, and only that one, and
  appends the new one.
\<close>

theorem offline_buffer_bounded:
  assumes "length buf \<le> unat offlineBufferLimit"
  shows "length (buffer_pushes (unat offlineBufferLimit) xs buf) \<le> unat offlineBufferLimit \<and>
         buffer_pushes (unat offlineBufferLimit) xs buf
           = drop (length (buf @ xs) - unat offlineBufferLimit) (buf @ xs) \<and>
         (length buf = unat offlineBufferLimit \<longrightarrow>
            buffer_push (unat offlineBufferLimit) x buf = tl buf @ [x]) \<and>
         map_option gc_offlineBufferLimit (geo (initializeGeoLinker env s)) = Some offlineBufferLimit \<and>
         unat offlineBufferLimit = 50"
proof -
  have c: "0 < unat offlineBufferLimit" "unat offlineBufferLimit = 50"
    by (simp_all add: offlineBufferLimit_def)
  have d: "buffer_pushes (unat offlineBufferLimit) xs buf
           = drop (length (buf @ xs) - unat offlineBufferLimit) (buf @ xs)"
    using c(1) assms by (rule buffer_pushes_drop)
  have "length (buffer_pushes (unat offlineBufferLimit) xs buf) \<le> unat offlineBufferLimit"
    unfolding d using assms by simp
  moreover have "map_option gc_offlineBufferLimit (geo (initializeGeoLinker env s))
      = Some offlineBufferLimit"
    by (simp add: initializeGeoLinker_def Let_def setSystemLED_def)
  ultimately show ?thesis using c(2) d by (simp add: buffer_push_def)
qed

theorem offline_buffer_bounded_witness:
  "buffer_pushes (unat offlineBufferLimit) [1 ..< 52] [] = [2 ..< 52 :: nat] \<and>
   length (buffer_pushes (unat offlineBufferLimit) [1 ..< 52 :: nat] []) = 50 \<and>
   length [1 ..< 51 :: nat] = unat offlineBufferLimit \<and>
   buffer_push (unat offlineBufferLimit) 51 [1 ..< 51 :: nat] = tl [1 ..< 51] @ [51]"
proof -
  have h: "length ([] :: nat list) \<le> unat offlineBufferLimit" by simp
  have c: "unat offlineBufferLimit = 50" by (simp add: offlineBufferLimit_def)
  have e: "drop (length ([] @ [1 ..< 52 :: nat]) - 50) ([] @ [1 ..< 52]) = [2 ..< 52]"
    by code_simp
  from offline_buffer_bounded [OF h, of "[1 ..< 52]"]
  have "buffer_pushes (unat offlineBufferLimit) [1 ..< 52 :: nat] []
          = drop (length ([] @ [1 ..< 52 :: nat]) - unat offlineBufferLimit) ([] @ [1 ..< 52])"
    by (rule conjunct2 [THEN conjunct1])
  then have r: "buffer_pushes (unat offlineBufferLimit) [1 ..< 52 :: nat] [] = [2 ..< 52]"
    by (simp only: c e)
  have f: "length [1 ..< 51 :: nat] = unat offlineBufferLimit" by (simp add: c)
  then have g: "length [1 ..< 51 :: nat] \<le> unat offlineBufferLimit" by simp
  from offline_buffer_bounded [OF g, of "[]" 51] f
  have p: "buffer_push (unat offlineBufferLimit) 51 [1 ..< 51 :: nat] = tl [1 ..< 51] @ [51]"
    by blast
  show ?thesis unfolding r p using f by simp
qed

end
